theory Spec2Isabelle
  imports Main
begin

section \<open>Text: the string operations that the command processor relies on\<close>

text \<open>
  The program is \<^verbatim>\<open>command_processor.py\<close>. Its texts are Python \<^verbatim>\<open>str\<close> values; the
  model takes them as \<^typ>\<open>string\<close>, one \<^typ>\<open>char\<close> per code point, which covers the
  code points 0 to 255. The character classes below are the ones CPython uses for
  \<^verbatim>\<open>str.strip()\<close>, \<^verbatim>\<open>str.split()\<close>, \<^verbatim>\<open>str.splitlines()\<close> and \<^verbatim>\<open>str.lower()\<close>, cut
  down to that range.
\<close>

definition is_space :: "char \<Rightarrow> bool" where
  \<comment> \<open>\<^verbatim>\<open>str.isspace\<close> of one character: TAB, LF, VT, FF, CR, FS, GS, RS, US, SPACE, NEL, NBSP.\<close>
  "is_space c \<longleftrightarrow> c \<in> set [CHR 0x09, CHR 0x0A, CHR 0x0B, CHR 0x0C, CHR 0x0D,
     CHR 0x1C, CHR 0x1D, CHR 0x1E, CHR 0x1F, CHR 0x20, CHR 0x85, CHR 0xA0]"

definition is_linebreak :: "char \<Rightarrow> bool" where
  \<comment> \<open>the line boundaries of \<^verbatim>\<open>str.splitlines\<close>: LF, VT, FF, CR, FS, GS, RS, NEL.\<close>
  "is_linebreak c \<longleftrightarrow> c \<in> set [CHR 0x0A, CHR 0x0B, CHR 0x0C, CHR 0x0D,
     CHR 0x1C, CHR 0x1D, CHR 0x1E, CHR 0x85]"

definition lower_char :: "char \<Rightarrow> char" where
  \<comment> \<open>\<^verbatim>\<open>A\<close> to \<^verbatim>\<open>Z\<close> and the upper-case letters 0xC0 to 0xDE (0xD7 is the multiplication sign)
      move up by 32; every other character is its own lower case.\<close>
  "lower_char c =
     (let n = (of_char c :: nat)
      in if (65 \<le> n \<and> n \<le> 90) \<or> (192 \<le> n \<and> n \<le> 222 \<and> n \<noteq> 215)
         then char_of (n + 32) else c)"

definition lower :: "string \<Rightarrow> string" where
  \<comment> \<open>\<^verbatim>\<open>s.lower()\<close>\<close>
  "lower s = map lower_char s"

definition lstrip :: "string \<Rightarrow> string" where
  \<comment> \<open>\<^verbatim>\<open>s.lstrip()\<close>\<close>
  "lstrip s = dropWhile is_space s"

definition rstrip :: "string \<Rightarrow> string" where
  \<comment> \<open>\<^verbatim>\<open>s.rstrip()\<close>\<close>
  "rstrip s = rev (dropWhile is_space (rev s))"

definition strip :: "string \<Rightarrow> string" where
  \<comment> \<open>\<^verbatim>\<open>s.strip()\<close>: whitespace is removed from both ends.\<close>
  "strip s = rstrip (lstrip s)"

definition lstrip_chars :: "string \<Rightarrow> string \<Rightarrow> string" where
  \<comment> \<open>\<^verbatim>\<open>s.lstrip(chars)\<close>: leading characters that occur in \<^verbatim>\<open>chars\<close> are removed.\<close>
  "lstrip_chars chars s = dropWhile (\<lambda>c. c \<in> set chars) s"

text \<open>
  \<^verbatim>\<open>s.split()\<close> with no separator: skip a run of whitespace, stop at the end of the
  text, otherwise scan one token up to the next whitespace character and go on behind it.
\<close>

function split_whitespace :: "string \<Rightarrow> string list" where
  "split_whitespace s =
     (let s1 = dropWhile is_space s
      in if s1 = [] then []
         else takeWhile (\<lambda>c. \<not> is_space c) s1 # split_whitespace (dropWhile (\<lambda>c. \<not> is_space c) s1))"
  by pat_completeness auto
termination
proof (relation "measure length")
  show "wf (measure length)" by simp
next
  fix s s1 :: string
  assume s1: "s1 = dropWhile is_space s" and ne: "s1 \<noteq> []"
  from s1 ne have "\<not> is_space (hd s1)"
    using hd_dropWhile [of is_space s] by simp
  with ne have "length (dropWhile (\<lambda>c. \<not> is_space c) s1) < length s1"
    by (cases s1) (simp_all add: le_imp_less_Suc length_dropWhile_le)
  also have "length s1 \<le> length s"
    unfolding s1 by (rule length_dropWhile_le)
  finally show "(dropWhile (\<lambda>c. \<not> is_space c) s1, s) \<in> measure length"
    by simp
qed

declare split_whitespace.simps [simp del]

text \<open>
  \<^verbatim>\<open>s.splitlines()\<close>: a line runs up to the next line boundary; the boundary itself is
  dropped, CR LF counts as one boundary, and a text that ends with a boundary has no
  empty last line.
\<close>

function splitlines :: "string \<Rightarrow> string list" where
  "splitlines s =
     (if s = [] then []
      else let line = takeWhile (\<lambda>c. \<not> is_linebreak c) s;
               rest = dropWhile (\<lambda>c. \<not> is_linebreak c) s
           in (case rest of
                 [] \<Rightarrow> [line]
               | b # rest' \<Rightarrow>
                   line # splitlines
                     (if b = CHR 0x0D \<and> rest' \<noteq> [] \<and> hd rest' = CHR 0x0A
                      then tl rest' else rest')))"
  by pat_completeness auto
termination
proof (relation "measure length")
  show "wf (measure length)" by simp
next
  fix s line rest :: string and b :: char and rest' :: string
  assume rest: "rest = dropWhile (\<lambda>c. \<not> is_linebreak c) s" and eq: "rest = b # rest'"
  have "length rest \<le> length s"
    unfolding rest by (rule length_dropWhile_le)
  with eq have "length rest' < length s" by simp
  moreover have "length (tl rest') \<le> length rest'" by simp
  ultimately show
    "(if b = CHR 0x0D \<and> rest' \<noteq> [] \<and> hd rest' = CHR 0x0A then tl rest' else rest', s)
       \<in> measure length"
    by auto
qed

declare splitlines.simps [simp del]

section \<open>Commands, the registry and the outcome of a dispatch\<close>

record Command =
  name :: string
  args :: "string list"
  raw_text :: string

text \<open>
  An exception that is raised: whether its class derives from \<^verbatim>\<open>Exception\<close> (what
  \<^verbatim>\<open>except Exception\<close> catches; \<^verbatim>\<open>SystemExit\<close>, \<^verbatim>\<open>KeyboardInterrupt\<close> and
  \<^verbatim>\<open>GeneratorExit\<close> do not), the name of its class, its arguments as text, and the
  \<^verbatim>\<open>__repr__\<close> method of its class. \<^verbatim>\<open>repr(e)\<close> calls that method, which is code of the
  exception's class: it returns a text, the empty one included, or raises an exception of
  its own, and it need not give the same result twice. The model records what the
  evaluation number \<open>n\<close> (from 0) of \<^verbatim>\<open>repr(e)\<close> gives: the text returned (\<open>Inr\<close>) or the
  exception raised (\<open>Inl\<close>).
\<close>

datatype pyexn =
  PyExn (is_Exception: bool) (exn_class: string) (exn_args: string)
    (exn_repr: "nat \<Rightarrow> pyexn + string")

definition repr :: "pyexn \<Rightarrow> nat \<Rightarrow> pyexn + string" where
  \<comment> \<open>\<^verbatim>\<open>repr(e)\<close>, evaluated for the \<open>n\<close>-th time\<close>
  "repr e n = exn_repr e n"

definition BaseException_repr :: "string \<Rightarrow> string \<Rightarrow> nat \<Rightarrow> pyexn + string" where
  \<comment> \<open>the \<^verbatim>\<open>__repr__\<close> that a class inherits from \<^verbatim>\<open>BaseException\<close>: the class name and
      the arguments in parentheses, every time\<close>
  "BaseException_repr cls arguments n = Inr (cls @ ''('' @ arguments @ '')'')"



definition IndexError :: pyexn where
  \<comment> \<open>what \<^verbatim>\<open>xs[0]\<close> raises on an empty list\<close>
  "IndexError =
     PyExn True ''IndexError'' (CHR 0x27 # ''list index out of range'' @ [CHR 0x27])
       (BaseException_repr ''IndexError'' (CHR 0x27 # ''list index out of range'' @ [CHR 0x27]))"

definition normalize_command_name :: "string \<Rightarrow> string" where
  "normalize_command_name nm = lower (lstrip_chars ''/'' (strip nm))"

text \<open>
  The local variable \<^verbatim>\<open>first_line\<close> of \<^verbatim>\<open>parse_command\<close> as a function of the body: the
  first line of the stripped body, stripped again (empty when the stripped body has no
  line, where \<^verbatim>\<open>parse_command\<close> has returned before it reads the line).
\<close>

definition first_line :: "string \<Rightarrow> string" where
  "first_line body_text =
     (case splitlines (strip body_text) of [] \<Rightarrow> [] | l # _ \<Rightarrow> strip l)"

text \<open>
  \<^verbatim>\<open>parse_command\<close> returns a command or \<^verbatim>\<open>None\<close>; the two list accesses \<^verbatim>\<open>[0]\<close> are
  the places where it could raise.
\<close>

definition parse_command :: "string \<Rightarrow> pyexn + Command option" where
  "parse_command body_text =
     (if body_text = [] then Inr None
      else let stripped = strip body_text
      in if stripped = [] then Inr None
      else (case splitlines stripped of
              [] \<Rightarrow> Inl IndexError
            | l # _ \<Rightarrow>
                let first_line = strip l
                in if first_line = [] then Inr None
                else let parts = split_whitespace first_line
                in if parts = [] then Inr None
                else (case parts of
                        [] \<Rightarrow> Inl IndexError
                      | raw_name # args' \<Rightarrow>
                          let normalized_name = normalize_command_name raw_name
                          in if normalized_name = [] then Inr None
                             else Inr (Some \<lparr>name = normalized_name, args = args',
                                            raw_text = body_text\<rparr>))))"

text \<open>
  A handler is a Python callable. The model sees one call of it as a function of the
  positional arguments it is called with, giving the value it returns (\<open>Inr\<close>) or the
  exception it raises (\<open>Inl\<close>); what else the handler does to the world is not
  modelled. A positional argument is a text or a list of texts, so that a call
  \<^verbatim>\<open>handler(*xs)\<close> (one argument per element) differs from \<^verbatim>\<open>handler(xs)\<close> (one argument,
  the list).
\<close>

datatype pyobj = Str string | StrList "string list"

type_synonym 'r handler = "pyobj list \<Rightarrow> pyexn + 'r"

text \<open>\<^verbatim>\<open>COMMAND_REGISTRY\<close>: a dictionary from the normalized command name to the handler.\<close>

type_synonym 'r registry = "string \<rightharpoonup> 'r handler"

text \<open>
  The decorator \<^verbatim>\<open>command(name)\<close> applied to \<^verbatim>\<open>func\<close>: it stores \<^verbatim>\<open>func\<close> in the registry
  under the normalized name and returns \<^verbatim>\<open>func\<close> unchanged. The registry is a module
  global in the source; here it is passed in and returned.
\<close>

definition command :: "string \<Rightarrow> 'r handler \<Rightarrow> 'r registry \<Rightarrow> 'r handler \<times> 'r registry" where
  "command nm func COMMAND_REGISTRY =
     (let key = normalize_command_name nm
      in (func, COMMAND_REGISTRY(key \<mapsto> func)))"

text \<open>
  Follows the spec's words, to compare \<^verbatim>\<open>normalize_command_name\<close> with: "trim, strip
  leading marker characters, lowercase". A raw name is read as whitespace \<open>ws\<close>, a run
  \<open>ms\<close> of markers \<^verbatim>\<open>/\<close>, a body, and whitespace \<open>ws'\<close>, where the body does not go on
  with a marker and does not end with whitespace, and does not start with whitespace
  unless markers stand before it. Every raw name has such parts, and its normal form is
  the body in lower case.
\<close>

definition spec_name_parts :: "string \<Rightarrow> string \<Rightarrow> string \<Rightarrow> string \<Rightarrow> bool" where
  "spec_name_parts ws ms body ws' \<longleftrightarrow>
     list_all is_space ws \<and> list_all is_space ws' \<and> list_all (\<lambda>c. c = CHR ''/'') ms
     \<and> (body = [] \<or> (hd body \<noteq> CHR ''/'' \<and> \<not> is_space (last body)))
     \<and> (ms = [] \<and> body \<noteq> [] \<longrightarrow> \<not> is_space (hd body))"

text \<open>
  The result of \<^verbatim>\<open>handle_command\<close> is a Python dictionary with text keys: a map whose
  values are the kinds of value the source stores in it. \<^typ>\<open>'m\<close> is the caller's meta
  information and \<^typ>\<open>'r\<close> what a handler returns; the dispatcher looks into neither.
\<close>

datatype ('m, 'r) pyval =
  VBool bool | VStr string | VStrList "string list" | VMeta 'm | VResult 'r

type_synonym ('m, 'r) outcome = "string \<rightharpoonup> ('m, 'r) pyval"

text \<open>
  The logger is a collaborator that records what it is told; a call of it is taken to
  return. The model keeps the records in the order of the calls: the level, the format
  text and the positional fields.
\<close>

datatype level = INFO | WARNING | ERROR

datatype ('m, 'r) logfield =
  FStr string | FStrList "string list" | FMeta 'm | FDict "string \<Rightarrow> ('m, 'r) pyval option"

datatype ('m, 'r) log_record = LogRecord level string "('m, 'r) logfield list"

type_synonym ('m, 'r) logger = "('m, 'r) log_record list"

text \<open>
  \<^verbatim>\<open>handle_command\<close>. The result is the exception that leaves the call (\<open>Inl\<close>) or the
  dictionary it returns (\<open>Inr\<close>), with the logger after the call. \<^verbatim>\<open>except Exception\<close>
  catches the exceptions whose class derives from \<^verbatim>\<open>Exception\<close>; any other one leaves
  the call at the place where the handler raised it. The handler of the exception
  evaluates \<^verbatim>\<open>repr(e)\<close> twice, for the error record and for the dictionary; an exception
  that \<^verbatim>\<open>repr(e)\<close> raises there leaves the call too.
\<close>

definition handle_command ::
  "'r registry \<Rightarrow> Command \<Rightarrow> 'm \<Rightarrow> ('m, 'r) logger
     \<Rightarrow> (pyexn + ('m, 'r) outcome) \<times> ('m, 'r) logger" where
  "handle_command COMMAND_REGISTRY cmd meta logger =
     (let log1 = logger @ [LogRecord INFO ''COMMAND_HANDLE_START name=%s args=%s meta=%s''
                   [FStr (name cmd), FStrList (args cmd), FMeta meta]]
      in (case COMMAND_REGISTRY (name cmd) of
            None \<Rightarrow>
              let log2 = log1 @ [LogRecord WARNING ''COMMAND_HANDLER_NOT_FOUND name=%s''
                           [FStr (name cmd)]];
                  result = [''handled'' \<mapsto> VBool False,
                            ''reason'' \<mapsto> VStr ''handler_not_found'',
                            ''command'' \<mapsto> VStr (name cmd),
                            ''args'' \<mapsto> VStrList (args cmd),
                            ''meta'' \<mapsto> VMeta meta]
              in (Inr result,
                  log2 @ [LogRecord INFO ''COMMAND_HANDLE_END result=%s'' [FDict result]])
          | Some handler \<Rightarrow>
              (case handler (map Str (args cmd)) of
                 Inr handler_result \<Rightarrow>
                   let result = [''handled'' \<mapsto> VBool True,
                                 ''command'' \<mapsto> VStr (name cmd),
                                 ''args'' \<mapsto> VStrList (args cmd),
                                 ''meta'' \<mapsto> VMeta meta,
                                 ''handler_result'' \<mapsto> VResult handler_result]
                   in (Inr result,
                       log1 @ [LogRecord INFO ''COMMAND_HANDLE_END result=%s'' [FDict result]])
               | Inl e \<Rightarrow>
                   if is_Exception e then
                     (case repr e 0 of
                        Inl raised \<Rightarrow> (Inl raised, log1)
                      | Inr logged \<Rightarrow>
                          let log2 = log1 @
                                [LogRecord ERROR ''COMMAND_HANDLER_ERROR name=%s error=%s''
                                   [FStr (name cmd), FStr logged]]
                          in (case repr e 1 of
                                Inl raised \<Rightarrow> (Inl raised, log2)
                              | Inr error \<Rightarrow>
                                  let result = [''handled'' \<mapsto> VBool False,
                                                ''reason'' \<mapsto> VStr ''handler_exception'',
                                                ''command'' \<mapsto> VStr (name cmd),
                                                ''args'' \<mapsto> VStrList (args cmd),
                                                ''meta'' \<mapsto> VMeta meta,
                                                ''error'' \<mapsto> VStr error]
                                  in (Inr result,
                                      log2 @ [LogRecord INFO ''COMMAND_HANDLE_END result=%s''
                                                [FDict result]])))
                   else (Inl e, log1))))"

subsection \<open>Sample handlers\<close>

text \<open>
  Handlers to run the dispatcher on. One returns the positional arguments it was called
  with (the source's commented example returns them as \<^verbatim>\<open>{"echo": args}\<close>). One raises
  \<^verbatim>\<open>ValueError(1)\<close>. One does what \<^verbatim>\<open>sys.exit(1)\<close> does, which raises \<^verbatim>\<open>SystemExit\<close>, an
  exception outside \<^verbatim>\<open>Exception\<close>. The last two raise exceptions of classes that derive
  from \<^verbatim>\<open>Exception\<close> and define \<^verbatim>\<open>__repr__\<close> themselves: the one returns the empty text,
  the other raises \<^verbatim>\<open>ValueError(1)\<close>.
\<close>

definition echo_handler :: "(pyobj list) handler" where
  "echo_handler positional = Inr positional"

definition ValueError_1 :: pyexn where
  "ValueError_1 = PyExn True ''ValueError'' ''1'' (BaseException_repr ''ValueError'' ''1'')"




definition failing_handler :: "'r handler" where
  "failing_handler positional = Inl ValueError_1"




section \<open>The dispatcher\<close>

text \<open>
  C2. A command whose name has no entry in the registry: the dispatcher logs the start,
  a warning and the end, and returns the dictionary with \<open>handled = False\<close>,
  \<open>reason = "handler_not_found"\<close>, the command's name and arguments and the caller's meta;
  no exception leaves the call.
\<close>

theorem handle_command_not_found:
  assumes "COMMAND_REGISTRY (name cmd) = None"
  shows "handle_command COMMAND_REGISTRY cmd meta logger =
    (Inr [''handled'' \<mapsto> VBool False,
          ''reason'' \<mapsto> VStr ''handler_not_found'',
          ''command'' \<mapsto> VStr (name cmd),
          ''args'' \<mapsto> VStrList (args cmd),
          ''meta'' \<mapsto> VMeta meta],
     logger @
     [LogRecord INFO ''COMMAND_HANDLE_START name=%s args=%s meta=%s''
        [FStr (name cmd), FStrList (args cmd), FMeta meta],
      LogRecord WARNING ''COMMAND_HANDLER_NOT_FOUND name=%s'' [FStr (name cmd)],
      LogRecord INFO ''COMMAND_HANDLE_END result=%s''
        [FDict [''handled'' \<mapsto> VBool False,
                ''reason'' \<mapsto> VStr ''handler_not_found'',
                ''command'' \<mapsto> VStr (name cmd),
                ''args'' \<mapsto> VStrList (args cmd),
                ''meta'' \<mapsto> VMeta meta]]])"
  using assms by (simp add: handle_command_def Let_def)

theorem handle_command_not_found_witness:
  "(Map.empty :: unit registry) (name \<lparr>name = ''nosuch'', args = [''a''], raw_text = ''/nosuch a''\<rparr>) = None
   \<and> handle_command (Map.empty :: unit registry)
        \<lparr>name = ''nosuch'', args = [''a''], raw_text = ''/nosuch a''\<rparr> ''meta'' [] =
    (Inr [''handled'' \<mapsto> VBool False,
          ''reason'' \<mapsto> VStr ''handler_not_found'',
          ''command'' \<mapsto> VStr ''nosuch'',
          ''args'' \<mapsto> VStrList [''a''],
          ''meta'' \<mapsto> VMeta ''meta''],
     [LogRecord INFO ''COMMAND_HANDLE_START name=%s args=%s meta=%s''
        [FStr ''nosuch'', FStrList [''a''], FMeta ''meta''],
      LogRecord WARNING ''COMMAND_HANDLER_NOT_FOUND name=%s'' [FStr ''nosuch''],
      LogRecord INFO ''COMMAND_HANDLE_END result=%s''
        [FDict [''handled'' \<mapsto> VBool False,
                ''reason'' \<mapsto> VStr ''handler_not_found'',
                ''command'' \<mapsto> VStr ''nosuch'',
                ''args'' \<mapsto> VStrList [''a''],
                ''meta'' \<mapsto> VMeta ''meta'']]])"
  using handle_command_not_found
    [of "Map.empty :: unit registry"
        "\<lparr>name = ''nosuch'', args = [''a''], raw_text = ''/nosuch a''\<rparr>" "''meta''" "[]"]
  by simp

text \<open>
  C3. A command whose name maps to a handler that returns: the handler is called with one
  positional argument per element of \<open>args\<close>, each a text (\<open>map Str (args cmd)\<close>, not the
  single argument \<open>[StrList (args cmd)]\<close>), and the dictionary returned has
  \<open>handled = True\<close> and \<open>handler_result\<close> equal to what the handler returned. The witness
  runs the handler that returns the arguments it saw, on the arguments \<open>x\<close> and \<open>y\<close>.
\<close>

theorem handle_command_hit:
  assumes "COMMAND_REGISTRY (name cmd) = Some handler"
    and "handler (map Str (args cmd)) = Inr v"
  shows "handle_command COMMAND_REGISTRY cmd meta logger =
    (Inr [''handled'' \<mapsto> VBool True,
          ''command'' \<mapsto> VStr (name cmd),
          ''args'' \<mapsto> VStrList (args cmd),
          ''meta'' \<mapsto> VMeta meta,
          ''handler_result'' \<mapsto> VResult v],
     logger @
     [LogRecord INFO ''COMMAND_HANDLE_START name=%s args=%s meta=%s''
        [FStr (name cmd), FStrList (args cmd), FMeta meta],
      LogRecord INFO ''COMMAND_HANDLE_END result=%s''
        [FDict [''handled'' \<mapsto> VBool True,
                ''command'' \<mapsto> VStr (name cmd),
                ''args'' \<mapsto> VStrList (args cmd),
                ''meta'' \<mapsto> VMeta meta,
                ''handler_result'' \<mapsto> VResult v]]])"
  using assms by (simp add: handle_command_def Let_def)

theorem handle_command_hit_witness:
  "[''echo'' \<mapsto> echo_handler] (name \<lparr>name = ''echo'', args = [''x'', ''y''], raw_text = ''/echo x y''\<rparr>)
     = Some echo_handler
   \<and> echo_handler (map Str (args \<lparr>name = ''echo'', args = [''x'', ''y''], raw_text = ''/echo x y''\<rparr>))
     = Inr [Str ''x'', Str ''y'']
   \<and> length [Str ''x'', Str ''y''] = 2
   \<and> fst (handle_command [''echo'' \<mapsto> echo_handler]
        \<lparr>name = ''echo'', args = [''x'', ''y''], raw_text = ''/echo x y''\<rparr> ''meta'' []) =
      Inr [''handled'' \<mapsto> VBool True,
           ''command'' \<mapsto> VStr ''echo'',
           ''args'' \<mapsto> VStrList [''x'', ''y''],
           ''meta'' \<mapsto> VMeta ''meta'',
           ''handler_result'' \<mapsto> VResult [Str ''x'', Str ''y'']]"
  using handle_command_hit
    [of "[''echo'' \<mapsto> echo_handler]"
        "\<lparr>name = ''echo'', args = [''x'', ''y''], raw_text = ''/echo x y''\<rparr>"
        echo_handler "[Str ''x'', Str ''y'']" "''meta''" "[]"]
  by (simp add: echo_handler_def)




text \<open>
  C8, as the code has it. Every dictionary that \<^verbatim>\<open>handle_command\<close> returns has one of
  three shapes: \<open>handled = True\<close> with \<open>handler_result\<close> and neither \<open>reason\<close> nor \<open>error\<close>;
  \<open>handled = False\<close> with \<open>reason = "handler_not_found"\<close> and no \<open>error\<close>; or
  \<open>handled = False\<close> with \<open>reason = "handler_exception"\<close> and \<open>error\<close>.
\<close>

theorem outcome_fields:
  assumes "fst (handle_command COMMAND_REGISTRY cmd meta logger) = Inr d"
  shows "(d ''handled'' = Some (VBool True)
          \<and> dom d = {''handled'', ''command'', ''args'', ''meta'', ''handler_result''})
       \<or> (d ''handled'' = Some (VBool False)
          \<and> d ''reason'' = Some (VStr ''handler_not_found'')
          \<and> dom d = {''handled'', ''reason'', ''command'', ''args'', ''meta''})
       \<or> (d ''handled'' = Some (VBool False)
          \<and> d ''reason'' = Some (VStr ''handler_exception'')
          \<and> dom d = {''handled'', ''reason'', ''command'', ''args'', ''meta'', ''error''})"
proof (cases "COMMAND_REGISTRY (name cmd)")
  case None
  with assms have "d = [''handled'' \<mapsto> VBool False,
          ''reason'' \<mapsto> VStr ''handler_not_found'',
          ''command'' \<mapsto> VStr (name cmd),
          ''args'' \<mapsto> VStrList (args cmd),
          ''meta'' \<mapsto> VMeta meta]"
    by (simp add: handle_command_def Let_def)
  then show ?thesis by auto
next
  case (Some handler)
  show ?thesis
  proof (cases "handler (map Str (args cmd))")
    case (Inr v)
    with Some assms have "d = [''handled'' \<mapsto> VBool True,
          ''command'' \<mapsto> VStr (name cmd),
          ''args'' \<mapsto> VStrList (args cmd),
          ''meta'' \<mapsto> VMeta meta,
          ''handler_result'' \<mapsto> VResult v]"
      by (simp add: handle_command_def Let_def)
    then show ?thesis by auto
  next
    case (Inl e)
    with Some assms obtain error where "d = [''handled'' \<mapsto> VBool False,
          ''reason'' \<mapsto> VStr ''handler_exception'',
          ''command'' \<mapsto> VStr (name cmd),
          ''args'' \<mapsto> VStrList (args cmd),
          ''meta'' \<mapsto> VMeta meta,
          ''error'' \<mapsto> VStr error]"
      by (auto simp add: handle_command_def Let_def split: if_splits sum.splits)
    then show ?thesis by auto
  qed
qed

theorem outcome_fields_witness:
  "fst (handle_command (Map.empty :: unit registry)
        \<lparr>name = ''nosuch'', args = [''a''], raw_text = ''/nosuch a''\<rparr> ''meta'' []) =
     Inr [''handled'' \<mapsto> VBool False,
          ''reason'' \<mapsto> VStr ''handler_not_found'',
          ''command'' \<mapsto> VStr ''nosuch'',
          ''args'' \<mapsto> VStrList [''a''],
          ''meta'' \<mapsto> VMeta ''meta'']
   \<and> [''handled'' \<mapsto> VBool False,
       ''reason'' \<mapsto> VStr ''handler_not_found'',
       ''command'' \<mapsto> VStr ''nosuch'',
       ''args'' \<mapsto> VStrList [''a''],
       ''meta'' \<mapsto> (VMeta ''meta'' :: (string, unit) pyval)] ''reason''
     = Some (VStr ''handler_not_found'')
   \<and> dom [''handled'' \<mapsto> VBool False,
           ''reason'' \<mapsto> VStr ''handler_not_found'',
           ''command'' \<mapsto> VStr ''nosuch'',
           ''args'' \<mapsto> VStrList [''a''],
           ''meta'' \<mapsto> (VMeta ''meta'' :: (string, unit) pyval)]
     = {''handled'', ''reason'', ''command'', ''args'', ''meta''}"
  using outcome_fields
    [of "Map.empty :: unit registry"
        "\<lparr>name = ''nosuch'', args = [''a''], raw_text = ''/nosuch a''\<rparr>" "''meta''" "[]"
        "[''handled'' \<mapsto> VBool False,
          ''reason'' \<mapsto> VStr ''handler_not_found'',
          ''command'' \<mapsto> VStr ''nosuch'',
          ''args'' \<mapsto> VStrList [''a''],
          ''meta'' \<mapsto> VMeta ''meta'']"]
  by (auto simp add: handle_command_def Let_def)

text \<open>
  The claim asks for an \<open>error\<close> field in every dictionary with \<open>handled = False\<close>; the one
  returned for a command without a handler has none.
\<close>

theorem outcome_fields_counterexample:
  "fst (handle_command (Map.empty :: unit registry)
        \<lparr>name = ''nosuch'', args = [], raw_text = ''/nosuch''\<rparr> ''meta'' []) =
     Inr [''handled'' \<mapsto> VBool False,
          ''reason'' \<mapsto> VStr ''handler_not_found'',
          ''command'' \<mapsto> VStr ''nosuch'',
          ''args'' \<mapsto> VStrList [],
          ''meta'' \<mapsto> VMeta ''meta'']
   \<and> ''error'' \<notin> dom [''handled'' \<mapsto> VBool False,
          ''reason'' \<mapsto> VStr ''handler_not_found'',
          ''command'' \<mapsto> VStr ''nosuch'',
          ''args'' \<mapsto> VStrList [],
          ''meta'' \<mapsto> (VMeta ''meta'' :: (string, unit) pyval)]"
  by (simp add: handle_command_def Let_def)

section \<open>Properties of the string operations\<close>

lemma is_linebreak_is_space: "is_linebreak c \<Longrightarrow> is_space c"
  by (auto simp add: is_space_def is_linebreak_def)

lemma of_char_lower_char:
  "(of_char (lower_char c) :: nat) =
     (let n = of_char c
      in if (65 \<le> n \<and> n \<le> 90) \<or> (192 \<le> n \<and> n \<le> 222 \<and> n \<noteq> 215) then n + 32 else n)"
  by (simp add: lower_char_def Let_def)

lemma lower_char_idem: "lower_char (lower_char c) = lower_char c"
proof -
  have "(of_char (lower_char (lower_char c)) :: nat) = of_char (lower_char c)"
    by (simp add: of_char_lower_char [of "lower_char c"] Let_def) (auto simp add: of_char_lower_char Let_def)
  then show ?thesis by simp
qed

lemma lower_char_slash: "lower_char c = CHR ''/'' \<longleftrightarrow> c = CHR ''/''"
proof -
  have "lower_char c = CHR ''/'' \<longleftrightarrow> (of_char (lower_char c) :: nat) = of_char CHR ''/''"
    by (simp only: of_char_eq_iff)
  also have "\<dots> \<longleftrightarrow> (of_char c :: nat) = 47"
    by (auto simp add: of_char_lower_char Let_def)
  also have "\<dots> \<longleftrightarrow> (of_char c :: nat) = of_char CHR ''/''"
    by simp
  also have "\<dots> \<longleftrightarrow> c = CHR ''/''"
    by (simp only: of_char_eq_iff)
  finally show ?thesis .
qed

lemma lower_idem: "lower (lower s) = lower s"
  by (simp add: lower_def lower_char_idem)


subsection \<open>Stripping\<close>

lemma rstrip_Nil_iff: "rstrip s = [] \<longleftrightarrow> (\<forall>c\<in>set s. is_space c)"
  by (auto simp add: rstrip_def dropWhile_eq_Nil_conv)

lemma lstrip_Nil_iff: "lstrip s = [] \<longleftrightarrow> (\<forall>c\<in>set s. is_space c)"
  by (auto simp add: lstrip_def dropWhile_eq_Nil_conv)

lemma strip_Nil_iff: "strip s = [] \<longleftrightarrow> (\<forall>c\<in>set s. is_space c)"
proof
  assume "strip s = []"
  then have "\<forall>c\<in>set (lstrip s). is_space c"
    by (simp add: strip_def rstrip_Nil_iff)
  then have "lstrip (lstrip s) = []"
    by (simp only: lstrip_Nil_iff)
  moreover have "lstrip (lstrip s) = lstrip s"
    by (simp add: lstrip_def dropWhile_idem)
  ultimately show "\<forall>c\<in>set s. is_space c"
    by (simp add: lstrip_Nil_iff)
next
  assume "\<forall>c\<in>set s. is_space c"
  then have "lstrip s = []" by (simp add: lstrip_Nil_iff)
  then show "strip s = []" by (simp add: strip_def rstrip_def)
qed

lemma strip_Nil: "strip [] = []"
  by (simp add: strip_def lstrip_def rstrip_def)

lemma lstrip_append_space: "\<forall>c\<in>set ws. is_space c \<Longrightarrow> lstrip (ws @ t) = lstrip t"
  by (simp add: lstrip_def dropWhile_append)

lemma strip_append_space: "\<forall>c\<in>set ws. is_space c \<Longrightarrow> strip (ws @ t) = strip t"
  by (simp add: strip_def lstrip_append_space)

lemma lstrip_id: "s \<noteq> [] \<Longrightarrow> \<not> is_space (hd s) \<Longrightarrow> lstrip s = s"
  by (cases s) (simp_all add: lstrip_def)

lemma rstrip_append:
  "rstrip (xs @ ys) = (if \<forall>c\<in>set ys. is_space c then rstrip xs else xs @ rstrip ys)"
  by (auto simp add: rstrip_def dropWhile_append)

lemma rstrip_id: "\<forall>c\<in>set s. \<not> is_space c \<Longrightarrow> rstrip s = s"
  by (cases "rev s") (simp_all add: rstrip_def)

lemma strip_id: "\<forall>c\<in>set s. \<not> is_space c \<Longrightarrow> strip s = s"
  by (cases s) (simp_all add: strip_def lstrip_def rstrip_id)

lemma rstrip_idem: "rstrip (rstrip s) = rstrip s"
  by (simp add: rstrip_def dropWhile_idem)

lemma rstrip_prefix: "\<exists>ws. s = rstrip s @ ws \<and> (\<forall>c\<in>set ws. is_space c)"
proof -
  have "rev s = takeWhile is_space (rev s) @ dropWhile is_space (rev s)" by simp
  then have "s = rev (dropWhile is_space (rev s)) @ rev (takeWhile is_space (rev s))"
    by (metis rev_append rev_rev_ident)
  moreover have "\<forall>c\<in>set (rev (takeWhile is_space (rev s))). is_space c"
    by (auto dest: set_takeWhileD)
  ultimately show ?thesis unfolding rstrip_def by blast
qed

lemma hd_rstrip: "rstrip s \<noteq> [] \<Longrightarrow> hd (rstrip s) = hd s"
  using rstrip_prefix [of s] by (metis hd_append2)

lemma set_rstrip_subset: "set (rstrip s) \<subseteq> set s"
  using rstrip_prefix [of s] by (metis Un_upper1 set_append)

lemma strip_rstrip: "strip (rstrip s) = strip s"
proof -
  obtain ws where s: "s = rstrip s @ ws" and ws: "\<forall>c\<in>set ws. is_space c"
    using rstrip_prefix by blast
  show ?thesis
  proof (cases "\<forall>c\<in>set s. is_space c")
    case True
    then have "rstrip s = []" by (simp add: rstrip_Nil_iff)
    moreover have "strip s = []" using True by (simp only: strip_Nil_iff)
    moreover have "strip [] = []" by (simp add: strip_Nil_iff)
    ultimately show ?thesis by simp
  next
    case False
    then have ne: "rstrip s \<noteq> []" by (simp add: rstrip_Nil_iff)
    have "lstrip s = lstrip (rstrip s @ ws)" using s by simp
    also have "\<dots> = lstrip (rstrip s) @ ws"
    proof -
      have "\<not> (\<forall>c\<in>set (rstrip s). is_space c)"
        using ne rstrip_idem [of s] rstrip_Nil_iff [of "rstrip s"] by simp
      then show ?thesis by (auto simp add: lstrip_def dropWhile_append)
    qed
    finally have "rstrip (lstrip s) = rstrip (lstrip (rstrip s))"
      using ws by (simp add: rstrip_append)
    then show ?thesis by (simp add: strip_def)
  qed
qed


lemma not_space_slash: "\<not> is_space CHR ''/''"
  by (simp add: is_space_def)

lemma last_rstrip: "rstrip s \<noteq> [] \<Longrightarrow> \<not> is_space (last (rstrip s))"
proof -
  assume "rstrip s \<noteq> []"
  then have ne: "dropWhile is_space (rev s) \<noteq> []" by (simp add: rstrip_def)
  then have "\<not> is_space (hd (dropWhile is_space (rev s)))" by (rule hd_dropWhile)
  with ne show ?thesis by (simp add: rstrip_def last_rev)
qed

lemma hd_lstrip: "lstrip s \<noteq> [] \<Longrightarrow> \<not> is_space (hd (lstrip s))"
  unfolding lstrip_def by (rule hd_dropWhile)

lemma hd_strip: "strip s \<noteq> [] \<Longrightarrow> \<not> is_space (hd (strip s))"
  unfolding strip_def using hd_rstrip [of "lstrip s"] hd_lstrip [of s]
  by (cases "lstrip s = []") (simp_all add: rstrip_def)

lemma last_strip: "strip s \<noteq> [] \<Longrightarrow> \<not> is_space (last (strip s))"
  unfolding strip_def by (rule last_rstrip)

lemma rstrip_last: "s \<noteq> [] \<Longrightarrow> \<not> is_space (last s) \<Longrightarrow> rstrip s = s"
proof -
  assume "s \<noteq> []" and "\<not> is_space (last s)"
  then have "rev s \<noteq> []" and "\<not> is_space (hd (rev s))" by (simp_all add: hd_rev)
  then have "dropWhile is_space (rev s) = rev s" by (cases "rev s") simp_all
  then show ?thesis by (simp add: rstrip_def)
qed

lemma strip_frame:
  assumes "\<forall>c\<in>set ws. is_space c" and "\<forall>c\<in>set ws'. is_space c"
    and "x = [] \<or> (\<not> is_space (hd x) \<and> \<not> is_space (last x))"
  shows "strip (ws @ x @ ws') = x"
proof (cases "x = []")
  case True
  with assms(1,2) have "\<forall>c\<in>set (ws @ x @ ws'). is_space c" by auto
  then have "strip (ws @ x @ ws') = []" by (simp only: strip_Nil_iff)
  with True show ?thesis by simp
next
  case False
  with assms(3) have h: "\<not> is_space (hd x)" and l: "\<not> is_space (last x)" by simp_all
  have "strip (ws @ x @ ws') = strip (x @ ws')"
    using assms(1) by (rule strip_append_space)
  also have "\<dots> = rstrip (x @ ws')"
    using False h by (simp add: strip_def lstrip_id)
  also have "\<dots> = rstrip x"
    using assms(2) by (simp add: rstrip_append)
  also have "\<dots> = x"
    using False l by (rule rstrip_last)
  finally show ?thesis .
qed

subsection \<open>Lines\<close>

lemma splitlines_Nil: "splitlines [] = []"
  by (simp add: splitlines.simps)

lemma splitlines_hd:
  assumes "s \<noteq> []"
  shows "\<exists>ls. splitlines s = takeWhile (\<lambda>c. \<not> is_linebreak c) s # ls"
  using assms by (subst splitlines.simps) (simp add: Let_def split: list.splits)

lemma first_line_eq: "first_line s = strip (takeWhile (\<lambda>c. \<not> is_linebreak c) (strip s))"
proof (cases "strip s = []")
  case True
  then show ?thesis by (simp add: first_line_def splitlines_Nil strip_Nil)
next
  case False
  then obtain ls where "splitlines (strip s) = takeWhile (\<lambda>c. \<not> is_linebreak c) (strip s) # ls"
    using splitlines_hd by blast
  then show ?thesis by (simp add: first_line_def)
qed

subsection \<open>Tokens\<close>

lemma split_whitespace_Nil_iff: "split_whitespace s = [] \<longleftrightarrow> (\<forall>c\<in>set s. is_space c)"
  by (subst split_whitespace.simps) (auto simp add: Let_def dropWhile_eq_Nil_conv)

lemma split_whitespace_token:
  assumes "t \<noteq> []" and "\<forall>c\<in>set t. \<not> is_space c"
  shows "split_whitespace t = [t]"
proof -
  from assms have "\<not> is_space (hd t)" by (cases t) simp_all
  with assms(1) have d: "dropWhile is_space t = t" by (cases t) simp_all
  from assms(2) have tw: "takeWhile (\<lambda>c. \<not> is_space c) t = t"
    and dw: "dropWhile (\<lambda>c. \<not> is_space c) t = []"
    by simp_all
  have e: "split_whitespace [] = []" by (simp add: split_whitespace_Nil_iff)
  have "split_whitespace t =
      (let s1 = dropWhile is_space t
       in if s1 = [] then []
          else takeWhile (\<lambda>c. \<not> is_space c) s1
               # split_whitespace (dropWhile (\<lambda>c. \<not> is_space c) s1))"
    by (rule split_whitespace.simps)
  also have "\<dots> = [t]"
    unfolding Let_def d tw dw e using assms(1) by simp
  finally show ?thesis .
qed

lemma split_whitespace_tokens:
  "t \<in> set (split_whitespace s) \<Longrightarrow>
     t \<noteq> [] \<and> (\<forall>c\<in>set t. \<not> is_space c) \<and>
     (\<exists>pre post. s = pre @ t @ post \<and> (pre = [] \<or> is_space (last pre))
        \<and> (post = [] \<or> is_space (hd post)))"
proof (induction s rule: split_whitespace.induct)
  case (1 s)
  define s1 where "s1 = dropWhile is_space s"
  define tok where "tok = takeWhile (\<lambda>c. \<not> is_space c) s1"
  define rest where "rest = dropWhile (\<lambda>c. \<not> is_space c) s1"
  define lead where "lead = takeWhile is_space s"
  have s: "s = lead @ tok @ rest"
    unfolding lead_def tok_def rest_def s1_def by simp
  have lead: "\<forall>c\<in>set lead. is_space c"
    unfolding lead_def by (auto dest: set_takeWhileD)
  have tok: "\<forall>c\<in>set tok. \<not> is_space c"
    unfolding tok_def by (auto dest: set_takeWhileD)
  have rest: "rest = [] \<or> is_space (hd rest)"
    unfolding rest_def using hd_dropWhile [of "\<lambda>c. \<not> is_space c" s1] by auto
  from "1.prems" have ne: "s1 \<noteq> []"
    unfolding s1_def
    by (subst (asm) split_whitespace.simps) (auto simp add: Let_def split: if_splits)
  then have "\<not> is_space (hd s1)"
    unfolding s1_def using hd_dropWhile [of is_space s] by simp
  with ne have tok_ne: "tok \<noteq> []"
    unfolding tok_def by (cases s1) simp_all
  from "1.prems" ne have "t = tok \<or> t \<in> set (split_whitespace rest)"
    unfolding s1_def tok_def rest_def
    by (subst (asm) split_whitespace.simps) (auto simp add: Let_def split: if_splits)
  then show ?case
  proof
    assume t: "t = tok"
    have "lead = [] \<or> is_space (last lead)"
      using lead by (cases "lead = []") simp_all
    with s rest t tok tok_ne show ?thesis by blast
  next
    assume "t \<in> set (split_whitespace rest)"
    with "1.IH" [OF s1_def ne] have t_ne: "t \<noteq> []" and t_ns: "\<forall>c\<in>set t. \<not> is_space c"
      and ex: "\<exists>pre post. rest = pre @ t @ post \<and> (pre = [] \<or> is_space (last pre))
                 \<and> (post = [] \<or> is_space (hd post))"
      unfolding rest_def s1_def by blast+
    then obtain pre post where r: "rest = pre @ t @ post"
      and pre: "pre = [] \<or> is_space (last pre)" and post: "post = [] \<or> is_space (hd post)"
      by blast
    have "pre \<noteq> []"
    proof
      assume "pre = []"
      with r t_ne have "rest \<noteq> []" and "hd rest = hd t" by simp_all
      with rest have "is_space (hd t)" by simp
      with t_ne t_ns show False by (cases t) simp_all
    qed
    with pre have last: "is_space (last (lead @ tok @ pre))" by simp
    have "s = (lead @ tok @ pre) @ t @ post" using s r by simp
    with last post t_ne t_ns show ?thesis by blast
  qed
qed

lemma concat_split_whitespace:
  "concat (split_whitespace s) = filter (\<lambda>c. \<not> is_space c) s"
proof (induction s rule: split_whitespace.induct)
  case (1 s)
  define s1 where "s1 = dropWhile is_space s"
  show ?case
  proof (cases "s1 = []")
    case True
    then have "\<forall>c\<in>set s. is_space c"
      unfolding s1_def by (simp add: dropWhile_eq_Nil_conv)
    then have "split_whitespace s = []" and "filter (\<lambda>c. \<not> is_space c) s = []"
      by (simp_all add: split_whitespace_Nil_iff)
    then show ?thesis by simp
  next
    case False
    have "s = takeWhile is_space s @ takeWhile (\<lambda>c. \<not> is_space c) s1
            @ dropWhile (\<lambda>c. \<not> is_space c) s1"
      unfolding s1_def by simp
    then have "filter (\<lambda>c. \<not> is_space c) s =
        filter (\<lambda>c. \<not> is_space c) (takeWhile is_space s)
        @ filter (\<lambda>c. \<not> is_space c) (takeWhile (\<lambda>c. \<not> is_space c) s1)
        @ filter (\<lambda>c. \<not> is_space c) (dropWhile (\<lambda>c. \<not> is_space c) s1)"
      by (metis filter_append)
    moreover have "filter (\<lambda>c. \<not> is_space c) (takeWhile is_space s) = []"
      by (auto simp add: filter_empty_conv dest: set_takeWhileD)
    moreover have "filter (\<lambda>c. \<not> is_space c) (takeWhile (\<lambda>c. \<not> is_space c) s1)
        = takeWhile (\<lambda>c. \<not> is_space c) s1"
      by (auto simp add: filter_id_conv dest: set_takeWhileD)
    moreover have "split_whitespace s = takeWhile (\<lambda>c. \<not> is_space c) s1
        # split_whitespace (dropWhile (\<lambda>c. \<not> is_space c) s1)"
      using False unfolding s1_def by (subst split_whitespace.simps) (simp add: Let_def)
    ultimately show ?thesis
      using "1.IH" [OF s1_def False] by simp
  qed
qed


section \<open>The parser\<close>

lemma split_whitespace_Nil: "split_whitespace [] = []"
  by (simp add: split_whitespace_Nil_iff)

text \<open>
  What \<^verbatim>\<open>parse_command\<close> computes, in one step: the tokens of \<^verbatim>\<open>first_line\<close>, the first
  of them normalized. Neither list access is ever out of range.
\<close>

lemma parse_command_first_line:
  "parse_command s =
     (case split_whitespace (first_line s) of
        [] \<Rightarrow> Inr None
      | raw_name # args' \<Rightarrow>
          if normalize_command_name raw_name = [] then Inr None
          else Inr (Some \<lparr>name = normalize_command_name raw_name, args = args', raw_text = s\<rparr>))"
proof (cases "strip s = []")
  case True
  then have "first_line s = []"
    by (simp add: first_line_def splitlines_Nil)
  with True show ?thesis
    by (simp add: parse_command_def split_whitespace_Nil)
next
  case False
  then have s: "s \<noteq> []" using strip_Nil by auto
  from False obtain l ls where l: "splitlines (strip s) = l # ls"
    using splitlines_hd by blast
  then have fl: "first_line s = strip l" by (simp add: first_line_def)
  show ?thesis
  proof (cases "strip l = []")
    case True
    with False s l fl show ?thesis
      by (simp add: parse_command_def split_whitespace_Nil)
  next
    case ne: False
    with False s l fl show ?thesis
      by (simp add: parse_command_def Let_def split: list.splits)
  qed
qed

lemma normalize_token:
  assumes "\<forall>c\<in>set t. \<not> is_space c"
  shows "normalize_command_name t = lower (lstrip_chars ''/'' t)"
  using assms by (simp add: normalize_command_name_def strip_id)

lemma first_line_token:
  assumes "\<forall>c\<in>set t. \<not> is_space c"
  shows "first_line t = t"
proof -
  from assms have "\<forall>c\<in>set t. \<not> is_linebreak c"
    using is_linebreak_is_space by blast
  then have tw: "takeWhile (\<lambda>c. \<not> is_linebreak c) t = t" by simp
  have st: "strip t = t" using assms by (rule strip_id)
  show ?thesis by (simp only: first_line_eq st tw)
qed

lemma normalize_token_body:
  assumes "\<forall>c\<in>set t. \<not> is_space c"
  shows "normalize_command_name t = map lower_char (dropWhile (\<lambda>c. c = CHR ''/'') t)"
  using assms by (simp add: normalize_token lower_def lstrip_chars_def)

lemma lower_Foo: "map lower_char ''Foo'' = ''foo''"
  by code_simp

text \<open>
  C4, as the code has it. A body that is one token (no whitespace) with a character
  other than the marker \<^verbatim>\<open>/\<close> in it, such as \<^verbatim>\<open>/Foo\<close>: the command has the token without
  its leading markers, in lower case, as its name (there is no whitespace to strip), no
  arguments, and the body as \<open>raw_text\<close>. For \<^verbatim>\<open>/Foo\<close> the name is \<^verbatim>\<open>foo\<close>.
\<close>

theorem parse_command_single_token:
  assumes "\<forall>c\<in>set t. \<not> is_space c" and "\<exists>c\<in>set t. c \<noteq> CHR ''/''"
  shows "parse_command t =
           Inr (Some \<lparr>name = map lower_char (dropWhile (\<lambda>c. c = CHR ''/'') t),
                      args = [], raw_text = t\<rparr>)
       \<and> map lower_char (dropWhile (\<lambda>c. c = CHR ''/'') t) \<noteq> []"
proof -
  from assms(2) have ne: "t \<noteq> []" by auto
  from assms(2) have body: "dropWhile (\<lambda>c. c = CHR ''/'') t \<noteq> []"
    by (auto simp add: dropWhile_eq_Nil_conv)
  then have "normalize_command_name t \<noteq> []"
    using assms(1) by (simp add: normalize_token_body)
  with assms(1) ne body show ?thesis
    by (simp add: parse_command_first_line first_line_token split_whitespace_token
        normalize_token_body)
qed

theorem parse_command_single_token_witness:
  "list_all (\<lambda>c. \<not> is_space c) ''/Foo''
   \<and> CHR ''F'' \<in> set ''/Foo'' \<and> CHR ''F'' \<noteq> CHR ''/''
   \<and> parse_command ''/Foo'' = Inr (Some \<lparr>name = ''foo'', args = [], raw_text = ''/Foo''\<rparr>)"
proof -
  have sp: "\<forall>c\<in>set ''/Foo''. \<not> is_space c"
    by (simp add: is_space_def)
  have ex: "\<exists>c\<in>set ''/Foo''. c \<noteq> CHR ''/''"
    by simp
  have "dropWhile (\<lambda>c. c = CHR ''/'') ''/Foo'' = ''Foo''" by simp
  with parse_command_single_token [OF sp ex]
  have "parse_command ''/Foo'' =
      Inr (Some \<lparr>name = map lower_char ''Foo'', args = [], raw_text = ''/Foo''\<rparr>)"
    by simp
  then have "parse_command ''/Foo'' = Inr (Some \<lparr>name = ''foo'', args = [], raw_text = ''/Foo''\<rparr>)"
    unfolding lower_Foo .
  with sp show ?thesis by (simp add: list_all_iff)
qed

text \<open>
  The claim speaks of every single token that is not empty. The token \<^verbatim>\<open>//\<close> is one:
  its name is empty after normalization, and the result is \<^verbatim>\<open>None\<close>, not a command.
\<close>

theorem parse_command_single_token_counterexample:
  "''//'' \<noteq> [] \<and> \<not> is_space CHR ''/'' \<and> parse_command ''//'' = Inr None"
proof -
  have "split_whitespace (first_line ''//'') = [''//'']" by code_simp
  moreover have "normalize_command_name ''//'' = []" by code_simp
  ultimately show ?thesis by (simp add: parse_command_first_line not_space_slash)
qed

lemma first_line_space: "\<forall>c\<in>set ws. is_space c \<Longrightarrow> first_line ws = []"
proof -
  assume "\<forall>c\<in>set ws. is_space c"
  then have "strip ws = []" by (simp only: strip_Nil_iff)
  then show ?thesis by (simp add: first_line_def splitlines_Nil)
qed

lemma parse_slash: "parse_command ''/'' = Inr None"
proof -
  have "split_whitespace (first_line ''/'') = [''/'']" by code_simp
  moreover have "normalize_command_name ''/'' = []" by code_simp
  ultimately show ?thesis by (simp add: parse_command_first_line)
qed

text \<open>
  C6. A body that is empty or all whitespace gives \<^verbatim>\<open>None\<close>; so does the body \<^verbatim>\<open>/\<close>,
  whose name is empty after normalization; and \<^verbatim>\<open>parse_command\<close> raises on no body: its
  result is always a returned value.
\<close>

theorem parse_command_absent:
  "((\<forall>c\<in>set ws. is_space c) \<longrightarrow> parse_command ws = Inr None)
   \<and> parse_command ''/'' = Inr None
   \<and> (\<exists>r. parse_command s = Inr r)"
proof (intro conjI impI)
  assume "\<forall>c\<in>set ws. is_space c"
  then show "parse_command ws = Inr None"
    by (simp add: parse_command_first_line first_line_space split_whitespace_Nil)
next
  show "parse_command ''/'' = Inr None" by (rule parse_slash)
next
  show "\<exists>r. parse_command s = Inr r"
    by (simp add: parse_command_first_line split: list.splits)
qed

theorem parse_command_absent_witness:
  "list_all is_space [CHR '' '', CHR 0x0A, CHR 0x09]
   \<and> parse_command [CHR '' '', CHR 0x0A, CHR 0x09] = Inr None
   \<and> parse_command [] = Inr None
   \<and> parse_command ''/'' = Inr None"
proof -
  have sp: "\<forall>c\<in>set [CHR '' '', CHR 0x0A, CHR 0x09]. is_space c"
    by (simp add: is_space_def)
  from parse_command_absent [of "[CHR '' '', CHR 0x0A, CHR 0x09]" "[]"] sp
  have "parse_command [CHR '' '', CHR 0x0A, CHR 0x09] = Inr None"
    and "parse_command ''/'' = Inr None"
    by blast+
  moreover from parse_command_absent [of "[]" "[]"]
  have "parse_command [] = Inr None" by simp
  ultimately show ?thesis using sp by (simp add: list_all_iff)
qed

lemma first_line_append_space:
  assumes "\<forall>c\<in>set ws. is_space c"
  shows "first_line (ws @ t) = first_line t"
  using assms by (simp add: first_line_eq strip_append_space)

lemma parse_health_a:
  "parse_command ''/health a'' =
     Inr (Some \<lparr>name = ''health'', args = [''a''], raw_text = ''/health a''\<rparr>)"
proof -
  have "split_whitespace (first_line ''/health a'') = [''/health'', ''a'']" by code_simp
  moreover have "normalize_command_name ''/health'' = ''health''" by code_simp
  ultimately show ?thesis by (simp add: parse_command_first_line)
qed

text \<open>
  C7, as the code has it. Whitespace in front of a body, blank lines among it, is removed
  by the outer \<^verbatim>\<open>strip\<close>: the result is the one for the body without it, with the whole
  body as \<open>raw_text\<close>. So a command line behind blank lines is parsed.
\<close>

theorem parse_command_leading_blank_lines:
  assumes "\<forall>c\<in>set ws. is_space c"
  shows "parse_command (ws @ t) =
           map_sum id (map_option (\<lambda>c. c\<lparr>raw_text := ws @ t\<rparr>)) (parse_command t)"
  using assms
  by (simp add: parse_command_first_line first_line_append_space split: list.splits)

theorem parse_command_leading_blank_lines_witness:
  "list_all is_space [CHR '' '', CHR 0x0A]
   \<and> parse_command ([CHR '' '', CHR 0x0A] @ ''/health a'') =
       Inr (Some \<lparr>name = ''health'', args = [''a''],
                  raw_text = [CHR '' '', CHR 0x0A] @ ''/health a''\<rparr>)"
proof -
  have sp: "\<forall>c\<in>set [CHR '' '', CHR 0x0A]. is_space c"
    by (simp add: is_space_def)
  from parse_command_leading_blank_lines [OF sp, of "''/health a''"]
  show ?thesis using sp by (simp add: parse_health_a list_all_iff)
qed

text \<open>
  The claim says that such a body gives \<^verbatim>\<open>None\<close>. Two empty lines and then the command
  line \<^verbatim>\<open>/health\<close>: the result is the command \<^verbatim>\<open>health\<close>.
\<close>

theorem parse_command_leading_blank_lines_counterexample:
  "parse_command (CHR 0x0A # CHR 0x0A # ''/health'') =
     Inr (Some \<lparr>name = ''health'', args = [], raw_text = CHR 0x0A # CHR 0x0A # ''/health''\<rparr>)"
proof -
  have "split_whitespace (first_line (CHR 0x0A # CHR 0x0A # ''/health'')) = [''/health'']"
    by code_simp
  moreover have "normalize_command_name ''/health'' = ''health''" by code_simp
  ultimately show ?thesis by (simp add: parse_command_first_line)
qed

lemma first_line_first:
  assumes "l \<noteq> []" and "\<not> is_space (hd l)" and "\<forall>c\<in>set l. \<not> is_linebreak c"
    and "is_linebreak b"
  shows "first_line (l @ b # r) = rstrip l" and "first_line l = rstrip l"
proof -
  have nlb: "takeWhile (\<lambda>c. \<not> is_linebreak c) (rstrip l) = rstrip l"
    using assms(3) set_rstrip_subset [of l] by (auto simp add: takeWhile_eq_all_conv)
  have ne: "rstrip l \<noteq> []"
    using assms(1,2) by (cases l) (auto simp add: rstrip_Nil_iff)
  then have "\<not> is_space (hd (rstrip l))"
    using assms(2) by (simp add: hd_rstrip)
  with ne have "lstrip (rstrip l) = rstrip l" by (rule lstrip_id)
  then have strip_r: "strip (rstrip l) = rstrip l"
    by (simp add: strip_def rstrip_idem)
  have strip_l: "strip l = rstrip l"
    using assms(1,2) by (simp add: strip_def lstrip_id)
  show "first_line l = rstrip l"
    by (simp add: first_line_eq strip_l nlb strip_r)
  have sp: "is_space b" using assms(4) by (rule is_linebreak_is_space)
  have "l @ b # r \<noteq> []" and "\<not> is_space (hd (l @ b # r))"
    using assms(1,2) by simp_all
  then have "strip (l @ b # r) = rstrip (l @ b # r)"
    by (simp add: strip_def lstrip_id del: append_is_Nil_conv)
  also have "\<dots> = (if \<forall>c\<in>set (b # r). is_space c then rstrip l else l @ rstrip (b # r))"
    by (rule rstrip_append)
  finally have st: "strip (l @ b # r) =
      (if \<forall>c\<in>set (b # r). is_space c then rstrip l else l @ rstrip (b # r))" .
  show "first_line (l @ b # r) = rstrip l"
  proof (cases "\<forall>c\<in>set (b # r). is_space c")
    case True
    with st show ?thesis by (simp add: first_line_eq nlb strip_r)
  next
    case False
    have "rstrip (b # r) = rstrip ([b] @ r)" by simp
    also have "\<dots> = [b] @ rstrip r"
      using False sp by (subst rstrip_append) auto
    finally have rb: "rstrip (b # r) = b # rstrip r" by simp
    from st False have "strip (l @ b # r) = l @ rstrip (b # r)"
      by (simp only: if_False)
    with rb have "strip (l @ b # r) = l @ b # rstrip r" by simp
    moreover have "takeWhile (\<lambda>c. \<not> is_linebreak c) (l @ b # rstrip r) = l"
      using assms(3,4) by (simp add: takeWhile_append1 takeWhile_append2)
    ultimately show ?thesis by (simp add: first_line_eq strip_l)
  qed
qed

lemma parse_reload_a_b:
  "parse_command ''/reload a b'' =
     Inr (Some \<lparr>name = ''reload'', args = [''a'', ''b''], raw_text = ''/reload a b''\<rparr>)"
proof -
  have "split_whitespace (first_line ''/reload a b'') = [''/reload'', ''a'', ''b'']"
    by code_simp
  moreover have "normalize_command_name ''/reload'' = ''reload''" by code_simp
  ultimately show ?thesis by (simp add: parse_command_first_line)
qed

lemma body_has_first_line:
  assumes "\<exists>c\<in>set s. \<not> is_space c"
  shows "\<exists>ws l rest. s = ws @ l @ rest \<and> (\<forall>c\<in>set ws. is_space c) \<and> l \<noteq> []
           \<and> \<not> is_space (hd l) \<and> (\<forall>c\<in>set l. \<not> is_linebreak c)
           \<and> (rest = [] \<or> is_linebreak (hd rest))"
proof -
  define ws where "ws = takeWhile is_space s"
  define s' where "s' = dropWhile is_space s"
  define l where "l = takeWhile (\<lambda>c. \<not> is_linebreak c) s'"
  define rest where "rest = dropWhile (\<lambda>c. \<not> is_linebreak c) s'"
  have s: "s = ws @ l @ rest" unfolding ws_def s'_def l_def rest_def by simp
  have ws: "\<forall>c\<in>set ws. is_space c"
    unfolding ws_def by (auto dest: set_takeWhileD)
  from assms have ne: "s' \<noteq> []"
    unfolding s'_def by (simp add: dropWhile_eq_Nil_conv)
  then have h: "\<not> is_space (hd s')"
    unfolding s'_def by (rule hd_dropWhile)
  then have "\<not> is_linebreak (hd s')" using is_linebreak_is_space by blast
  with ne have l: "l \<noteq> []" and "hd l = hd s'"
    unfolding l_def by (cases s'; simp)+
  with h have hl: "\<not> is_space (hd l)" by simp
  have nlb: "\<forall>c\<in>set l. \<not> is_linebreak c"
    unfolding l_def by (auto dest: set_takeWhileD)
  have rest: "rest = [] \<or> is_linebreak (hd rest)"
    unfolding rest_def using hd_dropWhile [of "\<lambda>c. \<not> is_linebreak c" s'] by auto
  from s ws l hl nlb rest show ?thesis by blast
qed

text \<open>
  C5. A body of several lines: whitespace \<open>ws\<close> (blank lines among it) that the outer
  \<^verbatim>\<open>strip\<close> removes, the first line \<open>l\<close> of the trimmed text, which starts with a
  character other than whitespace, and the rest, which is empty or starts with a line
  boundary. The name and the arguments are those of \<open>l\<close> parsed alone, whatever the rest
  is, and \<open>raw_text\<close> is the whole body. Every body with a character other than
  whitespace is of that shape.
\<close>

theorem parse_command_first_line_only:
  assumes "\<forall>c\<in>set ws. is_space c"
    and "l \<noteq> []" and "\<not> is_space (hd l)" and "\<forall>c\<in>set l. \<not> is_linebreak c"
    and "rest = [] \<or> is_linebreak (hd rest)"
  shows "parse_command (ws @ l @ rest) =
           map_sum id (map_option (\<lambda>c. c\<lparr>raw_text := ws @ l @ rest\<rparr>)) (parse_command l)
       \<and> ((\<exists>c\<in>set s. \<not> is_space c) \<longrightarrow>
            (\<exists>ws l rest. s = ws @ l @ rest \<and> (\<forall>c\<in>set ws. is_space c) \<and> l \<noteq> []
               \<and> \<not> is_space (hd l) \<and> (\<forall>c\<in>set l. \<not> is_linebreak c)
               \<and> (rest = [] \<or> is_linebreak (hd rest))))"
proof (rule conjI)
  have "first_line (ws @ l @ rest) = first_line (l @ rest)"
    using assms(1) by (rule first_line_append_space)
  also have "\<dots> = first_line l"
  proof (cases rest)
    case Nil
    then show ?thesis by simp
  next
    case (Cons b r)
    with assms(5) have lb: "is_linebreak b" by simp
    have "first_line (l @ b # r) = rstrip l"
      using assms(2-4) lb by (rule first_line_first(1))
    also have "\<dots> = first_line l"
      using assms(2-4) lb by (rule first_line_first(2) [symmetric])
    finally show ?thesis using Cons by simp
  qed
  finally show "parse_command (ws @ l @ rest) =
      map_sum id (map_option (\<lambda>c. c\<lparr>raw_text := ws @ l @ rest\<rparr>)) (parse_command l)"
    by (simp add: parse_command_first_line split: list.splits)
next
  show "(\<exists>c\<in>set s. \<not> is_space c) \<longrightarrow>
      (\<exists>ws l rest. s = ws @ l @ rest \<and> (\<forall>c\<in>set ws. is_space c) \<and> l \<noteq> []
         \<and> \<not> is_space (hd l) \<and> (\<forall>c\<in>set l. \<not> is_linebreak c)
         \<and> (rest = [] \<or> is_linebreak (hd rest)))"
    using body_has_first_line by blast
qed

theorem parse_command_first_line_only_witness:
  "list_all is_space [CHR '' '', CHR 0x0A]
   \<and> ''/reload a b'' \<noteq> [] \<and> \<not> is_space (hd ''/reload a b'')
   \<and> list_all (\<lambda>c. \<not> is_linebreak c) ''/reload a b''
   \<and> is_linebreak (hd (CHR 0x0A # ''ignored second line''))
   \<and> is_linebreak (hd (CHR 0x0A # ''second''))
   \<and> parse_command ([] @ ''/reload a b'' @ CHR 0x0A # ''ignored second line'') =
       Inr (Some \<lparr>name = ''reload'', args = [''a'', ''b''],
                  raw_text = ''/reload a b'' @ CHR 0x0A # ''ignored second line''\<rparr>)
   \<and> parse_command ([CHR '' '', CHR 0x0A] @ ''/reload a b'' @ CHR 0x0A # ''second'') =
       Inr (Some \<lparr>name = ''reload'', args = [''a'', ''b''],
                  raw_text = [CHR '' '', CHR 0x0A] @ ''/reload a b'' @ CHR 0x0A # ''second''\<rparr>)"
proof -
  have ws: "\<forall>c\<in>set [CHR '' '', CHR 0x0A]. is_space c"
    by (simp add: is_space_def)
  have no: "\<forall>c\<in>set ([] :: string). is_space c"
    by simp
  have hd: "\<not> is_space (hd ''/reload a b'')"
    by (simp add: is_space_def)
  have nlb: "\<forall>c\<in>set ''/reload a b''. \<not> is_linebreak c"
    by (simp add: is_linebreak_def)
  have r1: "CHR 0x0A # ''ignored second line'' = [] \<or> is_linebreak (hd (CHR 0x0A # ''ignored second line''))"
    and r2: "CHR 0x0A # ''second'' = [] \<or> is_linebreak (hd (CHR 0x0A # ''second''))"
    by (simp_all add: is_linebreak_def)
  have one: "parse_command ([] @ ''/reload a b'' @ CHR 0x0A # ''ignored second line'') =
      map_sum id (map_option (\<lambda>c. c\<lparr>raw_text := [] @ ''/reload a b'' @ CHR 0x0A # ''ignored second line''\<rparr>))
        (parse_command ''/reload a b'')"
    using parse_command_first_line_only [OF no _ hd nlb r1] by blast
  have two: "parse_command ([CHR '' '', CHR 0x0A] @ ''/reload a b'' @ CHR 0x0A # ''second'') =
      map_sum id (map_option (\<lambda>c. c\<lparr>raw_text := [CHR '' '', CHR 0x0A] @ ''/reload a b'' @ CHR 0x0A # ''second''\<rparr>))
        (parse_command ''/reload a b'')"
    using parse_command_first_line_only [OF ws _ hd nlb r2] by blast
  from one two show ?thesis using ws hd nlb r1 r2
    by (simp add: parse_reload_a_b list_all_iff)
qed

lemma split_whitespace_later_tokens:
  assumes "split_whitespace s = raw # rest_tokens" and "a \<in> set rest_tokens"
  shows "\<exists>pre post. s = pre @ a @ post \<and> pre \<noteq> [] \<and> is_space (last pre)
           \<and> (post = [] \<or> is_space (hd post))"
proof -
  define s1 where "s1 = dropWhile is_space s"
  define tok where "tok = takeWhile (\<lambda>c. \<not> is_space c) s1"
  define rest where "rest = dropWhile (\<lambda>c. \<not> is_space c) s1"
  have s: "s = takeWhile is_space s @ tok @ rest"
    unfolding tok_def rest_def s1_def by simp
  from assms(1) have "rest_tokens = split_whitespace rest"
    unfolding rest_def s1_def
    by (subst (asm) split_whitespace.simps) (auto simp add: Let_def split: if_splits)
  with assms(2) have a_ne: "a \<noteq> []" and a_ns: "\<forall>c\<in>set a. \<not> is_space c"
    and "\<exists>pre post. rest = pre @ a @ post \<and> (pre = [] \<or> is_space (last pre))
           \<and> (post = [] \<or> is_space (hd post))"
    using split_whitespace_tokens [of a rest] by blast+
  then obtain pre post where r: "rest = pre @ a @ post"
    and pre: "pre = [] \<or> is_space (last pre)" and post: "post = [] \<or> is_space (hd post)"
    by blast
  have rest_hd: "rest = [] \<or> is_space (hd rest)"
    unfolding rest_def using hd_dropWhile [of "\<lambda>c. \<not> is_space c" s1] by auto
  have pre_ne: "pre \<noteq> []"
  proof
    assume "pre = []"
    with r a_ne have "rest \<noteq> []" and "hd rest = hd a" by simp_all
    with rest_hd have "is_space (hd a)" by simp
    with a_ne a_ns show False by (cases a) simp_all
  qed
  with pre have "is_space (last (takeWhile is_space s @ tok @ pre))" by simp
  moreover have "s = (takeWhile is_space s @ tok @ pre) @ a @ post" using s r by simp
  moreover have "takeWhile is_space s @ tok @ pre \<noteq> []" using pre_ne by simp
  ultimately show ?thesis using post by blast
qed

lemma hd_normalize: "normalize_command_name raw \<noteq> [] \<Longrightarrow> hd (normalize_command_name raw) \<noteq> CHR ''/''"
proof -
  define body where "body = lstrip_chars ''/'' (strip raw)"
  assume "normalize_command_name raw \<noteq> []"
  then have ne: "body \<noteq> []"
    by (simp add: normalize_command_name_def body_def lower_def)
  then have "hd body \<noteq> CHR ''/''"
    unfolding body_def lstrip_chars_def
    using hd_dropWhile [of "\<lambda>c. c \<in> set ''/''" "strip raw"] by simp
  then have "lower_char (hd body) \<noteq> CHR ''/''"
    by (simp add: lower_char_slash)
  moreover have "hd (normalize_command_name raw) = lower_char (hd body)"
    using ne by (simp add: normalize_command_name_def body_def [symmetric] lower_def hd_map)
  ultimately show ?thesis by simp
qed

lemma parse_Reload_a_b:
  "parse_command ''/Reload a  b'' =
     Inr (Some \<lparr>name = ''reload'', args = [''a'', ''b''], raw_text = ''/Reload a  b''\<rparr>)"
proof -
  have "split_whitespace (first_line ''/Reload a  b'') = [''/Reload'', ''a'', ''b'']"
    by code_simp
  moreover have "normalize_command_name ''/Reload'' = ''reload''" by code_simp
  ultimately show ?thesis by (simp add: parse_command_first_line)
qed

lemma split_whitespace_layout:
  "\<exists>seps trail. length seps = length (split_whitespace s)
      \<and> (\<forall>g\<in>set seps. \<forall>c\<in>set g. is_space c)
      \<and> (\<forall>g\<in>set (tl seps). g \<noteq> [])
      \<and> (\<forall>c\<in>set trail. is_space c)
      \<and> s = concat (map2 (@) seps (split_whitespace s)) @ trail"
proof (induction s rule: split_whitespace.induct)
  case (1 s)
  define s1 where "s1 = dropWhile is_space s"
  define tok where "tok = takeWhile (\<lambda>c. \<not> is_space c) s1"
  define rest where "rest = dropWhile (\<lambda>c. \<not> is_space c) s1"
  define lead where "lead = takeWhile is_space s"
  have s: "s = lead @ tok @ rest"
    unfolding lead_def tok_def rest_def s1_def by simp
  have lead: "\<forall>c\<in>set lead. is_space c"
    unfolding lead_def by (auto dest: set_takeWhileD)
  show ?case
  proof (cases "s1 = []")
    case True
    then have all: "\<forall>c\<in>set s. is_space c"
      unfolding s1_def by (simp add: dropWhile_eq_Nil_conv)
    then have "split_whitespace s = []" by (simp add: split_whitespace_Nil_iff)
    with all have "length [] = length (split_whitespace s)
      \<and> (\<forall>g\<in>set ([] :: string list). \<forall>c\<in>set g. is_space c)
      \<and> (\<forall>g\<in>set (tl ([] :: string list)). g \<noteq> [])
      \<and> (\<forall>c\<in>set s. is_space c)
      \<and> s = concat (map2 (@) [] (split_whitespace s)) @ s"
      by simp
    then show ?thesis by blast
  next
    case False
    have sp: "split_whitespace s = tok # split_whitespace rest"
      using False unfolding s1_def tok_def rest_def
      by (subst split_whitespace.simps) (simp add: Let_def)
    have rest_hd: "rest = [] \<or> is_space (hd rest)"
      unfolding rest_def using hd_dropWhile [of "\<lambda>c. \<not> is_space c" s1] by auto
    from "1.IH" [OF s1_def False] obtain seps trail
      where len: "length seps = length (split_whitespace rest)"
        and ws: "\<forall>g\<in>set seps. \<forall>c\<in>set g. is_space c"
        and tl: "\<forall>g\<in>set (tl seps). g \<noteq> []"
        and trail: "\<forall>c\<in>set trail. is_space c"
        and r: "rest = concat (map2 (@) seps (split_whitespace rest)) @ trail"
      unfolding rest_def s1_def by blast
    have all_ne: "\<forall>g\<in>set seps. g \<noteq> []"
    proof (cases seps)
      case Nil
      then show ?thesis by simp
    next
      case (Cons g gs)
      with len obtain t ts where ts: "split_whitespace rest = t # ts"
        by (cases "split_whitespace rest") simp_all
      then have "t \<in> set (split_whitespace rest)" by simp
      then have t: "t \<noteq> []" "\<forall>c\<in>set t. \<not> is_space c"
        using split_whitespace_tokens [of t rest] by blast+
      have "g \<noteq> []"
      proof
        assume "g = []"
        with r Cons ts have "rest = t @ concat (map2 (@) gs ts) @ trail" by simp
        with t(1) have "rest \<noteq> []" and "hd rest = hd t" by simp_all
        with rest_hd have "is_space (hd t)" by simp
        with t show False by (cases t) simp_all
      qed
      with tl Cons show ?thesis by simp
    qed
    have "length (lead # seps) = length (split_whitespace s)"
      using len sp by simp
    moreover have "\<forall>g\<in>set (lead # seps). \<forall>c\<in>set g. is_space c"
      using lead ws by simp
    moreover have "\<forall>g\<in>set (tl (lead # seps)). g \<noteq> []"
      using all_ne by simp
    moreover have "s = concat (map2 (@) (lead # seps) (split_whitespace s)) @ trail"
      using s r sp by simp
    ultimately show ?thesis using trail by blast
  qed
qed

lemma first_line_layout:
  assumes "split_whitespace (first_line s) = raw_name # rest_tokens"
  shows "\<exists>seps. length seps = length rest_tokens
           \<and> (\<forall>g\<in>set seps. g \<noteq> [] \<and> (\<forall>c\<in>set g. is_space c))
           \<and> first_line s = raw_name @ concat (map2 (@) seps rest_tokens)"
proof -
  obtain seps trail where len: "length seps = length (split_whitespace (first_line s))"
    and ws: "\<forall>g\<in>set seps. \<forall>c\<in>set g. is_space c"
    and tl: "\<forall>g\<in>set (tl seps). g \<noteq> []"
    and trail: "\<forall>c\<in>set trail. is_space c"
    and fl: "first_line s = concat (map2 (@) seps (split_whitespace (first_line s))) @ trail"
    using split_whitespace_layout [of "first_line s"] by blast
  from len assms obtain g gs where seps: "seps = g # gs"
    by (cases seps) simp_all
  have "raw_name \<in> set (split_whitespace (first_line s))" using assms by simp
  then have raw: "raw_name \<noteq> []"
    using split_whitespace_tokens [of raw_name "first_line s"] by blast
  from fl seps assms
  have eq: "first_line s = g @ raw_name @ concat (map2 (@) gs rest_tokens) @ trail"
    by simp
  with raw have ne: "first_line s \<noteq> []" by simp
  have st: "first_line s = strip (takeWhile (\<lambda>c. \<not> is_linebreak c) (strip s))"
    by (rule first_line_eq)
  have h: "\<not> is_space (hd (first_line s))"
    using ne unfolding st by (rule hd_strip)
  have l: "\<not> is_space (last (first_line s))"
    using ne unfolding st by (rule last_strip)
  have g: "g = []"
  proof (rule ccontr)
    assume "g \<noteq> []"
    with eq have "hd (first_line s) = hd g" by simp
    moreover have "is_space (hd g)" using ws seps \<open>g \<noteq> []\<close> by (cases g) simp_all
    ultimately show False using h by simp
  qed
  have t: "trail = []"
  proof (rule ccontr)
    assume "trail \<noteq> []"
    with eq have "last (first_line s) = last trail" by simp
    moreover have "is_space (last trail)" using trail \<open>trail \<noteq> []\<close> by simp
    ultimately show False using l by simp
  qed
  have "length gs = length rest_tokens" using len seps assms by simp
  moreover have "\<forall>g\<in>set gs. g \<noteq> [] \<and> (\<forall>c\<in>set g. is_space c)"
    using ws tl seps by simp
  moreover have "first_line s = raw_name @ concat (map2 (@) gs rest_tokens)"
    using eq g t by simp
  ultimately show ?thesis by blast
qed

text \<open>
  C10. Every command that \<^verbatim>\<open>parse_command\<close> returns has a name that is not empty, is its
  own lower case and does not start with \<^verbatim>\<open>/\<close>. Every argument is not empty and has no
  whitespace in it; it stands in \<^verbatim>\<open>first_line\<close> behind a whitespace character and before
  a whitespace character or the end of the line (a token that cannot be extended). The
  line is the raw name, a token whose normal form is the name, followed by the arguments
  in their order, each behind a separator of one or more whitespace characters; so the
  arguments are all the tokens behind the first one, in the order of the line.
\<close>

theorem parse_command_invariant:
  assumes "parse_command s = Inr (Some c)"
  shows "name c \<noteq> [] \<and> lower (name c) = name c \<and> hd (name c) \<noteq> CHR ''/''
       \<and> (\<forall>a\<in>set (args c). a \<noteq> [] \<and> (\<forall>ch\<in>set a. \<not> is_space ch)
            \<and> (\<exists>pre post. first_line s = pre @ a @ post \<and> pre \<noteq> [] \<and> is_space (last pre)
                  \<and> (post = [] \<or> is_space (hd post))))
       \<and> (\<exists>raw_name seps.
             raw_name \<noteq> [] \<and> (\<forall>ch\<in>set raw_name. \<not> is_space ch)
             \<and> name c = map lower_char (dropWhile (\<lambda>ch. ch = CHR ''/'') raw_name)
             \<and> length seps = length (args c)
             \<and> (\<forall>g\<in>set seps. g \<noteq> [] \<and> (\<forall>ch\<in>set g. is_space ch))
             \<and> first_line s = raw_name @ concat (map2 (@) seps (args c))
             \<and> filter (\<lambda>ch. \<not> is_space ch) (first_line s) = raw_name @ concat (args c))"
proof -
  from assms obtain raw_name where sp: "split_whitespace (first_line s) = raw_name # args c"
    and nm: "name c = normalize_command_name raw_name" and ne: "normalize_command_name raw_name \<noteq> []"
    by (auto simp add: parse_command_first_line split: list.splits if_splits)
  have "name c \<noteq> []" using nm ne by simp
  moreover have "lower (name c) = name c"
    using nm by (simp add: normalize_command_name_def lower_idem)
  moreover have "hd (name c) \<noteq> CHR ''/''"
    using nm ne by (simp add: hd_normalize)
  moreover have "\<forall>a\<in>set (args c). a \<noteq> [] \<and> (\<forall>ch\<in>set a. \<not> is_space ch)
            \<and> (\<exists>pre post. first_line s = pre @ a @ post \<and> pre \<noteq> [] \<and> is_space (last pre)
                  \<and> (post = [] \<or> is_space (hd post)))"
  proof
    fix a assume a: "a \<in> set (args c)"
    then have "a \<in> set (split_whitespace (first_line s))" using sp by simp
    then have "a \<noteq> []" and "\<forall>ch\<in>set a. \<not> is_space ch"
      using split_whitespace_tokens [of a "first_line s"] by blast+
    with split_whitespace_later_tokens [OF sp a]
    show "a \<noteq> [] \<and> (\<forall>ch\<in>set a. \<not> is_space ch)
            \<and> (\<exists>pre post. first_line s = pre @ a @ post \<and> pre \<noteq> [] \<and> is_space (last pre)
                  \<and> (post = [] \<or> is_space (hd post)))"
      by blast
  qed
  moreover have "\<exists>raw_name seps.
             raw_name \<noteq> [] \<and> (\<forall>ch\<in>set raw_name. \<not> is_space ch)
             \<and> name c = map lower_char (dropWhile (\<lambda>ch. ch = CHR ''/'') raw_name)
             \<and> length seps = length (args c)
             \<and> (\<forall>g\<in>set seps. g \<noteq> [] \<and> (\<forall>ch\<in>set g. is_space ch))
             \<and> first_line s = raw_name @ concat (map2 (@) seps (args c))
             \<and> filter (\<lambda>ch. \<not> is_space ch) (first_line s) = raw_name @ concat (args c)"
  proof -
    have "raw_name \<in> set (split_whitespace (first_line s))" using sp by simp
    then have raw: "raw_name \<noteq> []" "\<forall>ch\<in>set raw_name. \<not> is_space ch"
      using split_whitespace_tokens [of raw_name "first_line s"] by blast+
    have n: "name c = map lower_char (dropWhile (\<lambda>ch. ch = CHR ''/'') raw_name)"
      using nm raw(2) by (simp add: normalize_token_body)
    have "filter (\<lambda>ch. \<not> is_space ch) (first_line s) = concat (raw_name # args c)"
      using concat_split_whitespace [of "first_line s"] sp by simp
    then have f: "filter (\<lambda>ch. \<not> is_space ch) (first_line s) = raw_name @ concat (args c)"
      by simp
    from first_line_layout [OF sp] obtain seps where "length seps = length (args c)"
      and "\<forall>g\<in>set seps. g \<noteq> [] \<and> (\<forall>c\<in>set g. is_space c)"
      and "first_line s = raw_name @ concat (map2 (@) seps (args c))"
      by blast
    with raw n f show ?thesis by blast
  qed
  ultimately show ?thesis by blast
qed

theorem parse_command_invariant_witness:
  "parse_command ''/Reload a  b'' =
     Inr (Some \<lparr>name = ''reload'', args = [''a'', ''b''], raw_text = ''/Reload a  b''\<rparr>)
   \<and> ''reload'' \<noteq> [] \<and> lower ''reload'' = ''reload'' \<and> hd ''reload'' \<noteq> CHR ''/''
   \<and> list_all (\<lambda>a. a \<noteq> [] \<and> list_all (\<lambda>ch. \<not> is_space ch) a) [''a'', ''b'']
   \<and> ''/Reload a  b'' = ''/Reload'' @ concat (map2 (@) ['' '', ''  ''] [''a'', ''b''])"
  using parse_command_invariant [OF parse_Reload_a_b]
  by (simp add: parse_Reload_a_b list_all_iff)

section \<open>The registry\<close>

lemma lstrip_chars_markers:
  assumes "\<forall>c\<in>set ms. c = CHR ''/''" and "body = [] \<or> hd body \<noteq> CHR ''/''"
  shows "lstrip_chars ''/'' (ms @ body) = body"
proof -
  have "dropWhile (\<lambda>c. c \<in> set ''/'') (ms @ body) = dropWhile (\<lambda>c. c \<in> set ''/'') body"
    using assms(1) by (simp add: dropWhile_append)
  also have "\<dots> = body"
    using assms(2) by (cases body) simp_all
  finally show ?thesis by (simp add: lstrip_chars_def)
qed

lemma normalize_parts:
  assumes "spec_name_parts ws ms body ws'"
  shows "normalize_command_name (ws @ ms @ body @ ws') = map lower_char body"
proof -
  from assms have ws: "\<forall>c\<in>set ws. is_space c" and ws': "\<forall>c\<in>set ws'. is_space c"
    and ms: "\<forall>c\<in>set ms. c = CHR ''/''"
    and body: "body = [] \<or> (hd body \<noteq> CHR ''/'' \<and> \<not> is_space (last body))"
    and start: "ms = [] \<and> body \<noteq> [] \<longrightarrow> \<not> is_space (hd body)"
    by (simp_all add: spec_name_parts_def list_all_iff)
  have "ms @ body = [] \<or> (\<not> is_space (hd (ms @ body)) \<and> \<not> is_space (last (ms @ body)))"
  proof (cases "ms = []")
    case True
    with body start show ?thesis by auto
  next
    case False
    then have "hd ms = CHR ''/''" and "last ms = CHR ''/''"
      using ms by simp_all
    with False body show ?thesis
      by (cases "body = []") (simp_all add: not_space_slash)
  qed
  then have "strip (ws @ (ms @ body) @ ws') = ms @ body"
    using ws ws' by (intro strip_frame) simp_all
  moreover have "lstrip_chars ''/'' (ms @ body) = body"
    using ms body by (intro lstrip_chars_markers) auto
  ultimately show ?thesis
    by (simp add: normalize_command_name_def lower_def)
qed

lemma name_has_parts:
  "\<exists>ws ms body ws'. n = ws @ ms @ body @ ws' \<and> spec_name_parts ws ms body ws'"
proof -
  define ws where "ws = takeWhile is_space n"
  define core where "core = rstrip (lstrip n)"
  define ms where "ms = takeWhile (\<lambda>c. c = CHR ''/'') core"
  define body where "body = dropWhile (\<lambda>c. c = CHR ''/'') core"
  obtain ws' where tail: "lstrip n = core @ ws'" and ws': "\<forall>c\<in>set ws'. is_space c"
    unfolding core_def using rstrip_prefix by blast
  have core: "core = ms @ body" unfolding ms_def body_def by simp
  have "n = ws @ lstrip n" unfolding ws_def lstrip_def by simp
  with tail core have n: "n = ws @ ms @ body @ ws'" by simp
  have 1: "list_all is_space ws"
    unfolding ws_def by (auto simp add: list_all_iff dest: set_takeWhileD)
  have 2: "list_all is_space ws'" using ws' by (simp add: list_all_iff)
  have 3: "list_all (\<lambda>c. c = CHR ''/'') ms"
    unfolding ms_def by (auto simp add: list_all_iff dest: set_takeWhileD)
  have 4: "body = [] \<or> (hd body \<noteq> CHR ''/'' \<and> \<not> is_space (last body))"
  proof (cases "body = []")
    case False
    then have "hd body \<noteq> CHR ''/''"
      unfolding body_def using hd_dropWhile [of "\<lambda>c. c = CHR ''/''" core] by simp
    moreover have "core \<noteq> []" using False core by simp
    then have "\<not> is_space (last core)"
      unfolding core_def by (rule last_rstrip)
    then have "\<not> is_space (last body)" using False core by simp
    ultimately show ?thesis by simp
  qed simp
  have 5: "ms = [] \<and> body \<noteq> [] \<longrightarrow> \<not> is_space (hd body)"
  proof
    assume a: "ms = [] \<and> body \<noteq> []"
    then have ne: "core \<noteq> []" and eq: "body = core" using core by simp_all
    from ne have "hd core = hd (lstrip n)"
      unfolding core_def by (rule hd_rstrip)
    moreover have "lstrip n \<noteq> []" using tail ne by auto
    then have "\<not> is_space (hd (lstrip n))" by (rule hd_lstrip)
    ultimately show "\<not> is_space (hd body)" using eq by simp
  qed
  from 1 2 3 4 5 have "spec_name_parts ws ms body ws'"
    by (simp add: spec_name_parts_def)
  with n show ?thesis by blast
qed

lemma lower_Health: "map lower_char ''Health'' = ''health''"
  by code_simp

lemma lower_health: "map lower_char ''health'' = ''health''"
  by code_simp

text \<open>
  C9. \<^verbatim>\<open>command\<close> stores the handler under the normal form of the name it is given:
  for a raw name that is whitespace, markers \<^verbatim>\<open>/\<close>, a body and whitespace, the key is the
  body in lower case, and every raw name is of that shape. It is the value of
  \<^verbatim>\<open>normalize_command_name\<close>, the function \<^verbatim>\<open>parse_command\<close> calls. Two registrations
  whose raw names have the same normal form leave the registry as it was but for that
  one key, which maps to the second handler.
\<close>

theorem command_last_registration_wins:
  assumes "spec_name_parts ws1 ms1 body1 ws1'"
    and "spec_name_parts ws2 ms2 body2 ws2'"
    and "map lower_char body1 = map lower_char body2"
  shows "snd (command (ws2 @ ms2 @ body2 @ ws2') h2
               (snd (command (ws1 @ ms1 @ body1 @ ws1') h1 COMMAND_REGISTRY)))
           = COMMAND_REGISTRY(map lower_char body1 \<mapsto> h2)
       \<and> snd (command (ws2 @ ms2 @ body2 @ ws2') h2
               (snd (command (ws1 @ ms1 @ body1 @ ws1') h1 COMMAND_REGISTRY)))
             (map lower_char body1) = Some h2
       \<and> command (ws1 @ ms1 @ body1 @ ws1') h1 COMMAND_REGISTRY
           = (h1, COMMAND_REGISTRY(map lower_char body1 \<mapsto> h1))
       \<and> normalize_command_name (ws1 @ ms1 @ body1 @ ws1') = map lower_char body1
       \<and> (\<exists>ws ms body ws'. n = ws @ ms @ body @ ws' \<and> spec_name_parts ws ms body ws')"
proof -
  have k1: "normalize_command_name (ws1 @ ms1 @ body1 @ ws1') = map lower_char body1"
    using assms(1) by (rule normalize_parts)
  have k2: "normalize_command_name (ws2 @ ms2 @ body2 @ ws2') = map lower_char body1"
    using normalize_parts [OF assms(2)] assms(3) by simp
  show ?thesis
    unfolding command_def Let_def k1 k2 using name_has_parts [of n] by simp
qed

theorem command_last_registration_wins_witness:
  "spec_name_parts [] ''/'' ''Health'' []
   \<and> spec_name_parts '' '' [] ''health'' '' ''
   \<and> map lower_char ''Health'' = map lower_char ''health''
   \<and> snd (command ('' '' @ [] @ ''health'' @ '' '') failing_handler
          (snd (command ([] @ ''/'' @ ''Health'' @ []) echo_handler Map.empty)))
        ''health'' = Some failing_handler
   \<and> snd (command ''/Health'' echo_handler Map.empty) ''health'' = Some echo_handler
   \<and> failing_handler [] \<noteq> echo_handler []"
proof -
  have p1: "spec_name_parts [] ''/'' ''Health'' []"
    and p2: "spec_name_parts '' '' [] ''health'' '' ''"
    by (simp_all add: spec_name_parts_def is_space_def)
  have eq: "map lower_char ''Health'' = map lower_char ''health''"
    by (simp only: lower_Health lower_health)
  note both = command_last_registration_wins
    [OF p1 p2 eq, of failing_handler echo_handler Map.empty]
  have a: "snd (command ('' '' @ [] @ ''health'' @ '' '') failing_handler
          (snd (command ([] @ ''/'' @ ''Health'' @ []) echo_handler Map.empty)))
        ''health'' = Some failing_handler"
    using both unfolding lower_Health by blast
  have "command ([] @ ''/'' @ ''Health'' @ []) echo_handler Map.empty
           = (echo_handler, [''health'' \<mapsto> echo_handler])"
    using both unfolding lower_Health by blast
  then have b: "snd (command ''/Health'' echo_handler Map.empty) ''health'' = Some echo_handler"
    by simp
  have c: "failing_handler [] \<noteq> echo_handler []"
    by (simp add: failing_handler_def echo_handler_def)
  from p1 p2 eq a b c show ?thesis by (intro conjI)
qed

end
